theory Spec2Isabelle
  imports Main "HOL-Library.AList" "HOL-Library.Sublist"
begin

section \<open>The folded-stack aggregation of folded\_to\_grafana.py\<close>

text \<open>
  The development embeds \<^verbatim>\<open>build_trie\<close>, \<^verbatim>\<open>calculate_totals\<close>,
  \<^verbatim>\<open>trie_to_nested_set\<close> and \<^verbatim>\<open>convert_folded_to_grafana\<close> of
  \<^verbatim>\<open>src/grafana/folded_to_grafana.py\<close>.

  Conventions of the embedding.
  \<^item> A Python \<^verbatim>\<open>str\<close> is a \<open>string\<close>; a \<open>char\<close> stands for one character
    with code point below 256.
  \<^item> Sample counts live in a type \<open>'n\<close>. An integer token \<open>i\<close> denotes \<open>of_int i\<close>;
    the builtin \<^verbatim>\<open>float()\<close> is a parameter \<open>py_float :: string \<Rightarrow> 'n option\<close>
    (\<open>None\<close> is its \<^verbatim>\<open>ValueError\<close>). The theorems use the laws of the
    type classes named in their statements (\<open>+\<close> associative and commutative with unit
    \<open>0\<close>, \<open>\<le>\<close> linear). Python's \<^verbatim>\<open>int\<close> obeys them; the rounding, the
    infinities and the NaN of IEEE-754 doubles are outside the embedding.
  \<^item> The interpreter's resource limits (recursion depth, the limit on the number of
    digits \<^verbatim>\<open>int()\<close> converts) are not modelled.
  \<^item> An exception is the \<open>Inl\<close> of a sum type. The only one the embedded code can
    raise is the \<^verbatim>\<open>ValueError\<close> of \<^verbatim>\<open>str.split\<close> on an empty separator.
  \<^item> The objects are owned by their parent and never shared, so in-place mutation is
    modelled by returning the updated tree.
\<close>

subsection \<open>Builtins of the language\<close>

datatype error = ValueError

text \<open>\<^verbatim>\<open>str.isspace\<close> for one character below code point 256.\<close>

definition is_space :: "char \<Rightarrow> bool" where
  "is_space c = ((of_char c :: nat) \<in> {9, 10, 11, 12, 13, 28, 29, 30, 31, 32, 133, 160})"

text \<open>\<^verbatim>\<open>s.strip()\<close>: leading and trailing whitespace removed.\<close>

definition str_strip :: "string \<Rightarrow> string" where
  "str_strip s = rev (dropWhile is_space (rev (dropWhile is_space s)))"

text \<open>\<^verbatim>\<open>s.startswith('#')\<close>.\<close>

definition startswith_hash :: "string \<Rightarrow> bool" where
  "startswith_hash s = (case s of [] \<Rightarrow> False | c # _ \<Rightarrow> c = CHR ''#'')"

text \<open>
  \<^verbatim>\<open>s.rsplit(' ', 1)\<close>: a list of two strings, cut at the last space, or the
  list \<open>[s]\<close> when \<open>s\<close> has no space.
\<close>

definition str_rsplit1 :: "string \<Rightarrow> string list" where
  "str_rsplit1 s =
     (if CHR '' '' \<in> set s
      then [rev (tl (dropWhile (\<lambda>c. c \<noteq> CHR '' '') (rev s))),
            rev (takeWhile (\<lambda>c. c \<noteq> CHR '' '') (rev s))]
      else [s])"

text \<open>
  \<^verbatim>\<open>s.split(sep)\<close>: the scan from the left, cutting at each occurrence of \<open>sep\<close>
  that does not overlap the previous one. \<open>split_from sep k cur rest\<close> has still \<open>k\<close>
  characters of a matched separator to pass over and holds the current segment
  reversed in \<open>cur\<close>. An empty separator raises \<^verbatim>\<open>ValueError\<close>.
\<close>

fun split_from :: "string \<Rightarrow> nat \<Rightarrow> string \<Rightarrow> string \<Rightarrow> string list" where
  "split_from sep k cur [] = [rev cur]"
| "split_from sep (Suc k) cur (c # cs) = split_from sep k cur cs"
| "split_from sep 0 cur (c # cs) =
     (if prefix sep (c # cs) then rev cur # split_from sep (length sep - 1) [] cs
      else split_from sep 0 (c # cur) cs)"

definition str_split :: "string \<Rightarrow> string \<Rightarrow> error + string list" where
  "str_split s sep = (if sep = [] then Inl ValueError else Inr (split_from sep 0 [] s))"

text \<open>
  \<^verbatim>\<open>int(s)\<close> in base 10: surrounding whitespace is dropped, one sign is allowed,
  then decimal digits, where a single underscore may stand between two digits.
  \<open>None\<close> is the \<^verbatim>\<open>ValueError\<close>. The whitespace that \<^verbatim>\<open>int\<close> drops is not
  that of \<^verbatim>\<open>str.strip\<close>: it is the tab, the line feed, the vertical tab, the form
  feed, the carriage return, the space, and the characters 133 and 160. The
  separator characters 28 to 31 stay, and with them the conversion fails.
\<close>

definition is_int_space :: "char \<Rightarrow> bool" where
  "is_int_space c = ((of_char c :: nat) \<in> {9, 10, 11, 12, 13, 32, 133, 160})"

definition int_strip :: "string \<Rightarrow> string" where
  "int_strip s = rev (dropWhile is_int_space (rev (dropWhile is_int_space s)))"

definition is_digit :: "char \<Rightarrow> bool" where
  "is_digit c = (48 \<le> (of_char c :: nat) \<and> (of_char c :: nat) \<le> 57)"

definition digit_val :: "char \<Rightarrow> nat" where
  "digit_val c = of_char c - 48"

fun int_digits :: "string \<Rightarrow> nat \<Rightarrow> nat option" where
  "int_digits [] acc = Some acc"
| "int_digits (c # cs) acc =
     (if is_digit c then int_digits cs (10 * acc + digit_val c)
      else if c = CHR ''_'' then
        (case cs of
           [] \<Rightarrow> None
         | d # ds \<Rightarrow> if is_digit d then int_digits ds (10 * acc + digit_val d) else None)
      else None)"

definition int_unsigned :: "string \<Rightarrow> nat option" where
  "int_unsigned s =
     (case s of [] \<Rightarrow> None
      | c # cs \<Rightarrow> if is_digit c then int_digits cs (digit_val c) else None)"

definition py_int :: "string \<Rightarrow> int option" where
  "py_int s =
     (case int_strip s of
        [] \<Rightarrow> None
      | c # cs \<Rightarrow>
          if c = CHR ''-'' then map_option (\<lambda>n. - int n) (int_unsigned cs)
          else if c = CHR ''+'' then map_option int (int_unsigned cs)
          else map_option int (int_unsigned (c # cs)))"

text \<open>
  \<^verbatim>\<open>sorted(xs, key=key, reverse=True)\<close>: the list is reversed, sorted stably in
  ascending order of the key, and reversed again, as CPython's \<^verbatim>\<open>list.sort\<close> does.
\<close>

definition sorted_reverse :: "('a \<Rightarrow> 'k::linorder) \<Rightarrow> 'a list \<Rightarrow> 'a list" where
  "sorted_reverse key xs = rev (sort_key key (rev xs))"

subsection \<open>The data model\<close>

text \<open>
  \<^verbatim>\<open>class TrieNode\<close>. The dictionary \<^verbatim>\<open>children\<close> keeps its keys in the order
  of their insertion, which \<^verbatim>\<open>children.values()\<close> follows: it is an association list
  that grows at its end.
\<close>

datatype 'n TrieNode =
  TrieNode (name: string) (children: "(string \<times> 'n TrieNode) list")
           (self_value: 'n) (total_value: 'n)

definition new_TrieNode :: "string \<Rightarrow> 'n::zero TrieNode" where
  "new_TrieNode nm = TrieNode nm [] 0 0"

text \<open>One dictionary of the result list; \<open>val\<close> and \<open>self\<close> are its keys
  \<^verbatim>\<open>'value'\<close> and \<^verbatim>\<open>'self'\<close>.\<close>

record 'n row =
  level :: nat
  label :: string
  val :: 'n
  self :: 'n

subsection \<open>build\_trie\<close>

text \<open>The count of a line: \<^verbatim>\<open>int\<close> first, \<^verbatim>\<open>float\<close> when that fails.\<close>

definition parse_count :: "(string \<Rightarrow> 'n option) \<Rightarrow> string \<Rightarrow> 'n::ring_1 option" where
  "parse_count py_float count_str =
     (case py_int count_str of
        Some i \<Rightarrow> Some (of_int i)
      | None \<Rightarrow> py_float count_str)"

text \<open>
  The head of the loop body, up to the parsed count: \<open>None\<close> is one of its three
  \<^verbatim>\<open>continue\<close> statements, \<open>Some (stack_str, count)\<close> reaches the separator test.
\<close>

definition parse_line :: "(string \<Rightarrow> 'n option) \<Rightarrow> string \<Rightarrow> (string \<times> 'n::ring_1) option" where
  "parse_line py_float line0 =
     (let line = str_strip line0 in
      if line = [] \<or> startswith_hash line then None
      else
        (case str_rsplit1 line of
           [stack_str, count_str] \<Rightarrow>
             (case parse_count py_float count_str of
                None \<Rightarrow> None
              | Some count \<Rightarrow> Some (stack_str, count))
         | _ \<Rightarrow> None))"

text \<open>
  The walk from \<open>node\<close> along the frames, creating the missing children, and the
  addition of the count at the node it ends in.
\<close>

fun insert_path :: "string list \<Rightarrow> 'n \<Rightarrow> 'n::{zero,plus} TrieNode \<Rightarrow> 'n TrieNode" where
  "insert_path [] count (TrieNode nm ch sv tv) = TrieNode nm ch (sv + count) tv"
| "insert_path (frame # stack) count (TrieNode nm ch sv tv) =
     (let child = (case map_of ch frame of None \<Rightarrow> new_TrieNode frame | Some c \<Rightarrow> c)
      in TrieNode nm (AList.update frame (insert_path stack count child) ch) sv tv)"

text \<open>
  The value of the variable \<^verbatim>\<open>separator\<close> after the test for \<open>/\<close> and \<open>;\<close>
  in the stack part of the line.
\<close>

definition effective_separator :: "string \<Rightarrow> string \<Rightarrow> string" where
  "effective_separator stack_str separator =
     (if CHR ''/'' \<in> set stack_str \<and> CHR '';'' \<notin> set stack_str then ''/'' else separator)"

text \<open>
  One iteration of the loop on the state \<open>(root, separator)\<close>: the assignment
  \<^verbatim>\<open>separator = '/'\<close> is to the variable the next iteration reads.
\<close>

definition insert_line ::
  "(string \<Rightarrow> 'n option) \<Rightarrow> 'n TrieNode \<times> string \<Rightarrow> string \<Rightarrow> error + 'n::ring_1 TrieNode \<times> string" where
  "insert_line py_float st line =
     (case st of (root, separator) \<Rightarrow>
        (case parse_line py_float line of
           None \<Rightarrow> Inr (root, separator)
         | Some (stack_str, count) \<Rightarrow>
             let separator' = effective_separator stack_str separator
             in (case str_split stack_str separator' of
                   Inl e \<Rightarrow> Inl e
                 | Inr segs \<Rightarrow>
                     Inr (insert_path (filter (\<lambda>s. s \<noteq> []) segs) count root, separator'))))"

fun insert_lines ::
  "(string \<Rightarrow> 'n option) \<Rightarrow> 'n TrieNode \<times> string \<Rightarrow> string list \<Rightarrow> error + 'n::ring_1 TrieNode \<times> string" where
  "insert_lines py_float st [] = Inr st"
| "insert_lines py_float st (line # folded_lines) =
     (case insert_line py_float st line of
        Inl e \<Rightarrow> Inl e
      | Inr st' \<Rightarrow> insert_lines py_float st' folded_lines)"

definition build_trie ::
  "(string \<Rightarrow> 'n option) \<Rightarrow> string list \<Rightarrow> string \<Rightarrow> error + 'n::ring_1 TrieNode" where
  "build_trie py_float folded_lines separator =
     (case insert_lines py_float (new_TrieNode ''total'', separator) folded_lines of
        Inl e \<Rightarrow> Inl e
      | Inr (root, _) \<Rightarrow> Inr root)"

subsection \<open>calculate\_totals\<close>

fun calculate_totals :: "'n::plus TrieNode \<Rightarrow> 'n TrieNode" where
  "calculate_totals (TrieNode nm ch sv tv) =
     (let ch' = map (\<lambda>(k, child). (k, calculate_totals child)) ch;
          total = fold (\<lambda>(k, child) total. total + total_value child) ch' sv
      in TrieNode nm ch' sv total)"

subsection \<open>trie\_to\_nested\_set\<close>

definition row_of :: "'n TrieNode \<Rightarrow> nat \<Rightarrow> 'n row" where
  "row_of node lvl =
     \<lparr>level = lvl, label = name node, val = total_value node, self = self_value node\<rparr>"

definition sorted_children :: "'n::linorder TrieNode \<Rightarrow> 'n TrieNode list" where
  "sorted_children node = sorted_reverse total_value (map snd (children node))"

function trie_to_nested_set :: "'n::linorder TrieNode \<Rightarrow> nat \<Rightarrow> 'n row list \<Rightarrow> 'n row list" where
  "trie_to_nested_set node lvl result =
     fold (\<lambda>child res. trie_to_nested_set child (lvl + 1) res)
          (sorted_children node) (result @ [row_of node lvl])"
  by pat_completeness auto
termination
proof (relation "measure (\<lambda>(node, lvl, result). size node)")
  show "wf (measure (\<lambda>(node :: 'n::linorder TrieNode, lvl :: nat, result :: 'n row list). size node))"
    by simp
next
  fix node child :: "'n::linorder TrieNode" and lvl :: nat and result res :: "'n row list"
  have smaller: "size c < Suc (size_list (size_prod (\<lambda>_. 0) size) ch)"
    if "(k, c) \<in> set ch" for k :: string and c :: "'n TrieNode" and ch
    using that by (induction ch) auto
  assume "child \<in> set (sorted_children node)"
  then obtain k where "(k, child) \<in> set (children node)"
    by (auto simp: sorted_children_def sorted_reverse_def)
  then have "size child < size node"
    by (cases node) (auto dest: smaller)
  then show "((child, lvl + 1, res), node, lvl, result) \<in> measure (\<lambda>(node, lvl, result). size node)"
    by simp
qed

declare trie_to_nested_set.simps [simp del]

subsection \<open>convert\_folded\_to\_grafana\<close>

definition convert_folded_to_grafana ::
  "(string \<Rightarrow> 'n option) \<Rightarrow> string list \<Rightarrow> string \<Rightarrow> error + 'n::linordered_idom row list" where
  "convert_folded_to_grafana py_float input_lines separator =
     (case build_trie py_float input_lines separator of
        Inl e \<Rightarrow> Inl e
      | Inr root \<Rightarrow> Inr (trie_to_nested_set (calculate_totals root) 0 []))"

subsection \<open>Notions the properties are stated with\<close>

text \<open>All nodes of a tree, the node itself first.\<close>

fun nodes :: "'n TrieNode \<Rightarrow> 'n TrieNode list" where
  "nodes (TrieNode nm ch sv tv) = TrieNode nm ch sv tv # concat (map (\<lambda>(k, c). nodes c) ch)"



text \<open>
  The frames and the count that each line which is not skipped hands to the walk,
  in the order of the lines, for a run that starts with a non-empty separator.
\<close>

fun inserted :: "(string \<Rightarrow> 'n option) \<Rightarrow> string \<Rightarrow> string list \<Rightarrow> (string list \<times> 'n::ring_1) list" where
  "inserted py_float separator [] = []"
| "inserted py_float separator (line # folded_lines) =
     (case parse_line py_float line of
        None \<Rightarrow> inserted py_float separator folded_lines
      | Some (stack_str, count) \<Rightarrow>
          (filter (\<lambda>s. s \<noteq> []) (split_from (effective_separator stack_str separator) 0 [] stack_str),
           count)
          # inserted py_float (effective_separator stack_str separator) folded_lines)"

text \<open>
  The nodes in the order of the traversal, each with the list of its ancestors, the
  root first: the number of ancestors of a node is the length of that list.
\<close>

function walk :: "'n::linorder TrieNode \<Rightarrow> 'n TrieNode list \<Rightarrow> ('n TrieNode list \<times> 'n TrieNode) list" where
  "walk node ancestors =
     (ancestors, node) # concat (map (\<lambda>child. walk child (ancestors @ [node])) (sorted_children node))"
  by pat_completeness auto
termination
proof (relation "measure (\<lambda>(node, ancestors). size node)")
  show "wf (measure (\<lambda>(node :: 'n::linorder TrieNode, ancestors :: 'n TrieNode list). size node))"
    by simp
next
  fix node child :: "'n::linorder TrieNode" and ancestors :: "'n TrieNode list"
  have smaller: "size c < Suc (size_list (size_prod (\<lambda>_. 0) size) ch)"
    if "(k, c) \<in> set ch" for k :: string and c :: "'n TrieNode" and ch
    using that by (induction ch) auto
  assume "child \<in> set (sorted_children node)"
  then obtain k where "(k, child) \<in> set (children node)"
    by (auto simp: sorted_children_def sorted_reverse_def)
  then have "size child < size node"
    by (cases node) (auto dest: smaller)
  then show "((child, ancestors @ [node]), node, ancestors) \<in> measure (\<lambda>(node, ancestors). size node)"
    by simp
qed

declare walk.simps [simp del]






section \<open>Evaluation on concrete inputs\<close>

text \<open>
  The recursion equation of \<open>trie_to_nested_set\<close> on a node in constructor form,
  which the simplifier can use without looping.
\<close>

lemma nested_set_node:
  "trie_to_nested_set (TrieNode nm ch sv tv) lvl result =
     fold (\<lambda>child res. trie_to_nested_set child (Suc lvl) res)
          (sorted_reverse total_value (map snd ch))
          (result @ [\<lparr>level = lvl, label = nm, val = tv, self = sv\<rparr>])"
  by (subst trie_to_nested_set.simps) (simp add: sorted_children_def row_of_def)

text \<open>A line that is its own stripped form, holds a space and ends in an integer.\<close>

lemma parse_line_int:
  assumes "str_strip line = line" and "line \<noteq> []" and "\<not> startswith_hash line"
    and "str_rsplit1 line = [stack_str, count_str]" and "py_int count_str = Some i"
  shows "parse_line py_float line = Some (stack_str, of_int i)"
  using assms by (simp add: parse_line_def parse_count_def)

lemma parse_abc5: "parse_line py_float ''a;b;c 5'' = Some (''a;b;c'', 5)"
  using parse_line_int [of "''a;b;c 5''" "''a;b;c''" "''5''" 5 py_float]
  by (simp add: str_strip_def is_space_def startswith_hash_def str_rsplit1_def
      py_int_def int_strip_def is_int_space_def int_unsigned_def is_digit_def digit_val_def)

lemma parse_abd3: "parse_line py_float ''a;b;d 3'' = Some (''a;b;d'', 3)"
  using parse_line_int [of "''a;b;d 3''" "''a;b;d''" "''3''" 3 py_float]
  by (simp add: str_strip_def is_space_def startswith_hash_def str_rsplit1_def
      py_int_def int_strip_def is_int_space_def int_unsigned_def is_digit_def digit_val_def)

lemma parse_ae2: "parse_line py_float ''a;e 2'' = Some (''a;e'', 2)"
  using parse_line_int [of "''a;e 2''" "''a;e''" "''2''" 2 py_float]
  by (simp add: str_strip_def is_space_def startswith_hash_def str_rsplit1_def
      py_int_def int_strip_def is_int_space_def int_unsigned_def is_digit_def digit_val_def)

lemma parse_xy1: "parse_line py_float ''x/y 1'' = Some (''x/y'', 1)"
  using parse_line_int [of "''x/y 1''" "''x/y''" "''1''" 1 py_float]
  by (simp add: str_strip_def is_space_def startswith_hash_def str_rsplit1_def
      py_int_def int_strip_def is_int_space_def int_unsigned_def is_digit_def digit_val_def)

lemma parse_ab2: "parse_line py_float ''a;b 2'' = Some (''a;b'', 2)"
  using parse_line_int [of "''a;b 2''" "''a;b''" "''2''" 2 py_float]
  by (simp add: str_strip_def is_space_def startswith_hash_def str_rsplit1_def
      py_int_def int_strip_def is_int_space_def int_unsigned_def is_digit_def digit_val_def)





lemma parse_notanumber: "parse_line (\<lambda>_. None) ''a;b;c notanumber'' = None"
  by (simp add: parse_line_def parse_count_def str_strip_def is_space_def startswith_hash_def
      str_rsplit1_def py_int_def int_strip_def is_int_space_def int_unsigned_def is_digit_def digit_val_def)

lemma parse_comment: "parse_line py_float ''# comment'' = None"
  by (simp add: parse_line_def str_strip_def is_space_def startswith_hash_def)

lemma parse_blank: "parse_line py_float ''   '' = None"
  by (simp add: parse_line_def str_strip_def is_space_def startswith_hash_def)

lemma parse_nocount: "parse_line py_float ''no-count-here'' = None"
  by (simp add: parse_line_def str_strip_def is_space_def startswith_hash_def str_rsplit1_def)



section \<open>Sums over the tree\<close>



lemma nodes_self: "t \<in> set (nodes t)"
  by (cases t) simp










section \<open>The loop over the lines\<close>

lemma insert_line_skip:
  "parse_line py_float line = None \<Longrightarrow> insert_line py_float (root, separator) line = Inr (root, separator)"
  by (simp add: insert_line_def)

lemma insert_line_valid:
  "parse_line py_float line = Some (stack_str, count) \<Longrightarrow>
   insert_line py_float (root, separator) line =
     (case str_split stack_str (effective_separator stack_str separator) of
        Inl e \<Rightarrow> Inl e
      | Inr segs \<Rightarrow>
          Inr (insert_path (filter (\<lambda>s. s \<noteq> []) segs) count root,
               effective_separator stack_str separator))"
  by (simp add: insert_line_def Let_def)





lemma str_rsplit1_two:
  "(\<exists>a b. str_rsplit1 s = [a, b]) \<longleftrightarrow> CHR '' '' \<in> set s"
  by (simp add: str_rsplit1_def)

lemma parse_line_None_iff:
  fixes py_float :: "string \<Rightarrow> 'n::ring_1 option"
  shows "parse_line py_float line = None \<longleftrightarrow>
     (str_strip line = [] \<or> take 1 (str_strip line) = ''#'' \<or> CHR '' '' \<notin> set (str_strip line) \<or>
      (py_int (rev (takeWhile (\<lambda>c. c \<noteq> CHR '' '') (rev (str_strip line)))) = None \<and>
       py_float (rev (takeWhile (\<lambda>c. c \<noteq> CHR '' '') (rev (str_strip line)))) = None))"
proof -
  have hash: "startswith_hash s \<longleftrightarrow> take 1 s = ''#''" for s
    by (cases s) (auto simp: startswith_hash_def)
  show ?thesis
    by (auto simp: parse_line_def Let_def hash str_rsplit1_def parse_count_def
        split: option.splits)
qed

lemma insert_lines_filter:
  "insert_lines py_float st folded_lines =
   insert_lines py_float st (filter (\<lambda>l. parse_line py_float l \<noteq> None) folded_lines)"
proof (induction folded_lines arbitrary: st)
  case Nil
  show ?case by simp
next
  case (Cons line folded_lines)
  obtain root separator where st: "st = (root, separator)" by (cases st)
  show ?case
  proof (cases "parse_line py_float line")
    case None
    then show ?thesis using Cons.IH [of st] by (simp add: st insert_line_skip)
  next
    case (Some p)
    then show ?thesis using Cons.IH by (simp split: sum.splits)
  qed
qed





section \<open>The traversal\<close>

lemma fold_blocks:
  assumes "\<And>x res. x \<in> set xs \<Longrightarrow> f x res = res @ g x"
  shows "fold f xs acc = acc @ concat (map g xs)"
  using assms by (induction xs arbitrary: acc) simp_all

lemma nested_set_append:
  "trie_to_nested_set node lvl result =
     result @ row_of node lvl #
       concat (map (\<lambda>c. trie_to_nested_set c (Suc lvl) []) (sorted_children node))"
proof (induction node lvl result rule: trie_to_nested_set.induct)
  case (1 node lvl result)
  have blk: "trie_to_nested_set c (lvl + 1) res = res @ trie_to_nested_set c (Suc lvl) []"
    if "c \<in> set (sorted_children node)" for c res
    using "1.IH" [OF that, of res] "1.IH" [OF that, of "[]"] by simp
  have "trie_to_nested_set node lvl result =
      fold (\<lambda>child res. trie_to_nested_set child (lvl + 1) res)
        (sorted_children node) (result @ [row_of node lvl])"
    by (rule trie_to_nested_set.simps)
  also have "\<dots> = (result @ [row_of node lvl]) @
      concat (map (\<lambda>c. trie_to_nested_set c (Suc lvl) []) (sorted_children node))"
    by (rule fold_blocks) (rule blk)
  finally show ?case by simp
qed

lemma nested_set_unfold:
  "trie_to_nested_set node lvl [] =
     row_of node lvl # concat (map (\<lambda>c. trie_to_nested_set c (Suc lvl) []) (sorted_children node))"
  using nested_set_append [of node lvl "[]"] by simp

lemma nested_set_levels:
  "r \<in> set (trie_to_nested_set node lvl result) \<Longrightarrow> r \<in> set result \<or> lvl \<le> level r"
proof (induction node lvl result arbitrary: r rule: trie_to_nested_set.induct)
  case (1 node lvl result)
  from "1.prems" consider "r \<in> set result" | "r = row_of node lvl"
    | c where "c \<in> set (sorted_children node)" "r \<in> set (trie_to_nested_set c (Suc lvl) [])"
    by (subst (asm) nested_set_append) auto
  then show ?case
  proof cases
    case 3
    then have "r \<in> set (trie_to_nested_set c (lvl + 1) [])" by simp
    from "1.IH" [OF 3(1) this] show ?thesis by simp
  qed (simp_all add: row_of_def)
qed


lemma sorted_reverse_set: "set (sorted_reverse key xs) = set xs"
  by (simp add: sorted_reverse_def)




lemma concat_split:
  "concat bss = ys @ x # zs \<Longrightarrow>
   \<exists>bs1 p1 p2 bs2. bss = bs1 @ (p1 @ x # p2) # bs2 \<and> ys = concat bs1 @ p1 \<and> zs = p2 @ concat bs2"
proof (induction bss arbitrary: ys)
  case Nil
  then show ?case by simp
next
  case (Cons b bss)
  from Cons.prems have "b @ concat bss = ys @ x # zs" by simp
  then consider us where "b = ys @ us" "us @ concat bss = x # zs"
    | us where "b @ us = ys" "concat bss = us @ x # zs"
    by (auto simp: append_eq_append_conv2)
  then show ?case
  proof cases
    case 1
    show ?thesis
    proof (cases us)
      case Nil
      with 1 have "concat bss = [] @ x # zs" by simp
      from Cons.IH [OF this] obtain bs1 p1 p2 bs2 where
        "bss = bs1 @ (p1 @ x # p2) # bs2" "[] = concat bs1 @ p1" "zs = p2 @ concat bs2"
        by blast
      with 1 Nil have "b # bss = (b # bs1) @ (p1 @ x # p2) # bs2 \<and>
          ys = concat (b # bs1) @ p1 \<and> zs = p2 @ concat bs2"
        by simp
      then show ?thesis by blast
    next
      case (Cons u us')
      with 1 have "b # bss = [] @ (ys @ x # us') # bss \<and> ys = concat [] @ ys \<and> zs = us' @ concat bss"
        by simp
      then show ?thesis by blast
    qed
  next
    case 2
    from Cons.IH [OF 2(2)] obtain bs1 p1 p2 bs2 where
      "bss = bs1 @ (p1 @ x # p2) # bs2" "us = concat bs1 @ p1" "zs = p2 @ concat bs2"
      by blast
    with 2 have "b # bss = (b # bs1) @ (p1 @ x # p2) # bs2 \<and>
        ys = concat (b # bs1) @ p1 \<and> zs = p2 @ concat bs2"
      by auto
    then show ?thesis by blast
  qed
qed

lemma walk_rows:
  "trie_to_nested_set node (length ancestors) [] =
     map (\<lambda>(a, n). row_of n (length a)) (walk node ancestors)"
proof (induction node ancestors rule: walk.induct)
  case (1 node ancestors)
  have "map (\<lambda>c. trie_to_nested_set c (Suc (length ancestors)) []) (sorted_children node) =
      map (\<lambda>c. map (\<lambda>(a, n). row_of n (length a)) (walk c (ancestors @ [node]))) (sorted_children node)"
  proof (rule map_cong [OF refl])
    fix c
    assume "c \<in> set (sorted_children node)"
    from "1.IH" [OF this]
    show "trie_to_nested_set c (Suc (length ancestors)) [] =
        map (\<lambda>(a, n). row_of n (length a)) (walk c (ancestors @ [node]))"
      by simp
  qed
  then have "concat (map (\<lambda>c. trie_to_nested_set c (Suc (length ancestors)) []) (sorted_children node)) =
      map (\<lambda>(a, n). row_of n (length a))
        (concat (map (\<lambda>c. walk c (ancestors @ [node])) (sorted_children node)))"
    by (simp only: map_concat map_map comp_def)
  then show ?case
    by (subst nested_set_unfold, subst walk.simps) simp
qed

lemma walk_parent:
  "walk node ancestors = pre @ (a, n) # post \<Longrightarrow>
   (pre = [] \<and> a = ancestors \<and> n = node) \<or>
   (a \<noteq> [] \<and> (butlast a, last a) \<in> set pre \<and> n \<in> snd ` set (children (last a)))"
proof (induction node ancestors arbitrary: pre a n post rule: walk.induct)
  case (1 node ancestors)
  let ?h = "\<lambda>c. walk c (ancestors @ [node])"
  from "1.prems" have eq:
    "(ancestors, node) # concat (map ?h (sorted_children node)) = pre @ (a, n) # post"
    by (subst (asm) walk.simps)
  show ?case
  proof (cases pre)
    case Nil
    with eq show ?thesis by simp
  next
    case (Cons e pre')
    with eq have e: "e = (ancestors, node)" and
      rest: "concat (map ?h (sorted_children node)) = pre' @ (a, n) # post"
      by simp_all
    from concat_split [OF rest] obtain bs1 p1 p2 bs2 where
      blocks: "map ?h (sorted_children node) = bs1 @ (p1 @ (a, n) # p2) # bs2" and
      pre': "pre' = concat bs1 @ p1"
      by blast
    from blocks have "p1 @ (a, n) # p2 \<in> set (map ?h (sorted_children node))" by simp
    then obtain c where c: "c \<in> set (sorted_children node)" and
      blk: "walk c (ancestors @ [node]) = p1 @ (a, n) # p2"
      by auto
    from c have child: "c \<in> snd ` set (children node)"
      by (simp add: sorted_children_def sorted_reverse_set)
    from "1.IH" [OF c blk] show ?thesis
    proof
      assume "p1 = [] \<and> a = ancestors @ [node] \<and> n = c"
      with child show ?thesis by (simp add: Cons e)
    next
      assume "a \<noteq> [] \<and> (butlast a, last a) \<in> set p1 \<and> n \<in> snd ` set (children (last a))"
      then show ?thesis by (simp add: Cons pre')
    qed
  qed
qed

lemma nested_set_head:
  "\<exists>rest. trie_to_nested_set node lvl [] = row_of node lvl # rest \<and> (\<forall>r \<in> set rest. lvl < level r)"
proof -
  have "\<forall>r \<in> set (concat (map (\<lambda>c. trie_to_nested_set c (Suc lvl) []) (sorted_children node))).
      lvl < level r"
    by (auto dest!: nested_set_levels)
  then show ?thesis
    by (subst nested_set_unfold) blast
qed

lemma blocks_successively:
  fixes P :: "'a row \<Rightarrow> 'a row \<Rightarrow> bool"
  assumes "\<And>b. b \<in> set bs \<Longrightarrow> b \<noteq> [] \<and> level (hd b) = k \<and> (\<forall>r \<in> set b. k \<le> level r) \<and>
      successively (\<lambda>x y. level y \<le> Suc (level x)) b"
  shows "successively (\<lambda>x y. level y \<le> Suc (level x)) (concat bs) \<and>
         (\<forall>r \<in> set (concat bs). k \<le> level r) \<and>
         (concat bs \<noteq> [] \<longrightarrow> level (hd (concat bs)) = k)"
  using assms
proof (induction bs)
  case Nil
  show ?case by simp
next
  case (Cons b bs)
  have b: "b \<noteq> []" "level (hd b) = k" "\<forall>r \<in> set b. k \<le> level r"
    "successively (\<lambda>x y. level y \<le> Suc (level x)) b"
    using Cons.prems [of b] by simp_all
  have "successively (\<lambda>x y. level y \<le> Suc (level x)) (concat bs) \<and>
         (\<forall>r \<in> set (concat bs). k \<le> level r) \<and>
         (concat bs \<noteq> [] \<longrightarrow> level (hd (concat bs)) = k)"
  proof (rule Cons.IH)
    fix b'
    assume "b' \<in> set bs"
    then show "b' \<noteq> [] \<and> level (hd b') = k \<and> (\<forall>r \<in> set b'. k \<le> level r) \<and>
      successively (\<lambda>x y. level y \<le> Suc (level x)) b'"
      using Cons.prems [of b'] by simp
  qed
  then have rest: "successively (\<lambda>x y. level y \<le> Suc (level x)) (concat bs)"
    "\<forall>r \<in> set (concat bs). k \<le> level r"
    "concat bs \<noteq> [] \<longrightarrow> level (hd (concat bs)) = k"
    by blast+
  have "last b \<in> set b" using b(1) by simp
  with b(3) have last: "k \<le> level (last b)" by blast
  have link: "concat bs = [] \<or> level (hd (concat bs)) \<le> Suc (level (last b))"
    using rest(3) last by auto
  have 1: "successively (\<lambda>x y. level y \<le> Suc (level x)) (concat (b # bs))"
    using b(4) rest(1) link by (simp add: successively_append_iff)
  have 2: "\<forall>r \<in> set (concat (b # bs)). k \<le> level r"
    using b(3) rest(2) by auto
  have 3: "level (hd (concat (b # bs))) = k"
    using b(1) b(2) by simp
  from 1 2 3 show ?case by blast
qed

lemma nested_set_successively:
  "successively (\<lambda>x y. level y \<le> Suc (level x)) (trie_to_nested_set node lvl [])"
proof (induction node lvl "[] :: 'a row list" rule: trie_to_nested_set.induct)
  case (1 node lvl)
  let ?bs = "map (\<lambda>c. trie_to_nested_set c (Suc lvl) []) (sorted_children node)"
  have "b \<noteq> [] \<and> level (hd b) = Suc lvl \<and> (\<forall>r \<in> set b. Suc lvl \<le> level r) \<and>
      successively (\<lambda>x y. level y \<le> Suc (level x)) b" if "b \<in> set ?bs" for b
  proof -
    from that obtain c where c: "c \<in> set (sorted_children node)"
      and b: "b = trie_to_nested_set c (Suc lvl) []" by auto
    obtain rest where "b = row_of c (Suc lvl) # rest" "\<forall>r \<in> set rest. Suc lvl < level r"
      using nested_set_head [of c "Suc lvl"] b by blast
    moreover have "successively (\<lambda>x y. level y \<le> Suc (level x)) b"
      using "1.hyps" [OF c] b by simp
    ultimately show ?thesis by (auto simp: row_of_def)
  qed
  from blocks_successively [of ?bs "Suc lvl", OF this]
  show ?case
    by (subst nested_set_unfold) (auto simp: successively_Cons row_of_def)
qed

lemma walk_node:
  "walk (TrieNode nm ch sv tv) ancestors =
     (ancestors, TrieNode nm ch sv tv) #
     concat (map (\<lambda>c. walk c (ancestors @ [TrieNode nm ch sv tv]))
       (sorted_reverse total_value (map snd ch)))"
  by (subst walk.simps) (simp add: sorted_children_def)

section \<open>The order of creation\<close>

lemma name_insert_path [simp]: "name (insert_path fs c t) = name t"
  by (cases fs; cases t) (simp_all add: Let_def)












lemma name_calculate_totals [simp]:
  "name (calculate_totals t) = name t"
  by (cases t) (simp add: Let_def)






section \<open>Insertions that commute\<close>






section \<open>The claims\<close>

text \<open>
  C1. Stated: the separator of a line depends on that line alone; a \<open>/\<close> detected on
  an earlier line never changes how a later line is split. The code does otherwise.
  The detection assigns to the variable \<open>separator\<close> that every later iteration
  reads: after the line \<open>x/y 1\<close> the line \<open>a;b 2\<close> is no longer cut at \<open>;\<close> and
  enters the tree as the single frame \<open>a;b\<close>, while the same line before it is cut
  into the frames \<open>a\<close> and \<open>b\<close>.
\<close>

theorem separator_detection_persists:
  "build_trie py_float [''x/y 1'', ''a;b 2''] '';'' =
     Inr (TrieNode ''total''
       [(''x'', TrieNode ''x'' [(''y'', TrieNode ''y'' [] 1 0)] 0 0),
        (''a;b'', TrieNode ''a;b'' [] 2 0)] 0 0)
   \<and> build_trie py_float [''a;b 2'', ''x/y 1''] '';'' =
     Inr (TrieNode ''total''
       [(''a'', TrieNode ''a'' [(''b'', TrieNode ''b'' [] 2 0)] 0 0),
        (''x'', TrieNode ''x'' [(''y'', TrieNode ''y'' [] 1 0)] 0 0)] 0 0)
   \<and> inserted py_float '';'' [''x/y 1'', ''a;b 2''] = [([''x'', ''y''], 1), ([''a;b''], 2)]
   \<and> inserted py_float '';'' [''a;b 2'', ''x/y 1''] = [([''a'', ''b''], 2), ([''x'', ''y''], 1)]"
  by (simp add: build_trie_def insert_line_def parse_xy1 parse_ab2
      str_split_def new_TrieNode_def effective_separator_def)







text \<open>
  C5. One iteration of the loop skips the line (\<open>parse_line\<close> is \<open>None\<close>, one of the
  \<^verbatim>\<open>continue\<close> statements is reached) exactly when the stripped line is empty, or
  begins with \<open>#\<close>, or holds no space, or its part after the last space is accepted
  neither by \<^verbatim>\<open>int\<close> nor by \<^verbatim>\<open>float\<close>. A skipped line leaves the tree and the
  separator as they are; any other line goes on to the split and the insertion. So
  the tree of an input is the tree of its lines that are not skipped.
\<close>

theorem skipped_lines:
  fixes py_float :: "string \<Rightarrow> 'n::ring_1 option"
  shows "(parse_line py_float line = None \<longleftrightarrow>
       (str_strip line = [] \<or> take 1 (str_strip line) = ''#'' \<or>
        CHR '' '' \<notin> set (str_strip line) \<or>
        (py_int (rev (takeWhile (\<lambda>c. c \<noteq> CHR '' '') (rev (str_strip line)))) = None \<and>
         py_float (rev (takeWhile (\<lambda>c. c \<noteq> CHR '' '') (rev (str_strip line)))) = None)))
    \<and> (parse_line py_float line = None \<longrightarrow>
         insert_line py_float (root, separator) line = Inr (root, separator))
    \<and> (\<forall>stack_str count. parse_line py_float line = Some (stack_str, count) \<longrightarrow>
         insert_line py_float (root, separator) line =
           (case str_split stack_str (effective_separator stack_str separator) of
              Inl e \<Rightarrow> Inl e
            | Inr segs \<Rightarrow>
                Inr (insert_path (filter (\<lambda>s. s \<noteq> []) segs) count root,
                     effective_separator stack_str separator)))
    \<and> build_trie py_float folded_lines separator =
        build_trie py_float (filter (\<lambda>l. parse_line py_float l \<noteq> None) folded_lines) separator"
proof (intro conjI)
  show "build_trie py_float folded_lines separator =
        build_trie py_float (filter (\<lambda>l. parse_line py_float l \<noteq> None) folded_lines) separator"
    unfolding build_trie_def by (subst insert_lines_filter) (rule refl)
qed (simp_all add: parse_line_None_iff insert_line_skip insert_line_valid)

theorem skipped_lines_witness:
  "py_int (rev (takeWhile (\<lambda>c. c \<noteq> CHR '' '') (rev (str_strip ''a;b;c notanumber'')))) = None
   \<and> parse_line (\<lambda>_. None :: int option) ''a;b;c notanumber'' = None
   \<and> insert_line (\<lambda>_. None) (TrieNode ''total'' [] 0 (0::int), '';'') ''a;b;c notanumber'' =
       Inr (TrieNode ''total'' [] 0 0, '';'')
   \<and> py_int (rev (takeWhile (\<lambda>c. c \<noteq> CHR '' '')
        (rev (str_strip [CHR ''a'', CHR '' '', CHR 0x1C, CHR ''5''])))) = None
   \<and> parse_line (\<lambda>_. None :: int option) [CHR ''a'', CHR '' '', CHR 0x1C, CHR ''5''] = None
   \<and> parse_line (\<lambda>_. None) ''a;b 2'' = Some (''a;b'', 2::int)
   \<and> insert_line (\<lambda>_. None) (TrieNode ''total'' [] 0 (0::int), '';'') ''a;b 2'' =
       Inr (TrieNode ''total'' [(''a'', TrieNode ''a'' [(''b'', TrieNode ''b'' [] 2 0)] 0 0)] 0 0, '';'')
   \<and> build_trie (\<lambda>_. None)
        ['''', ''   '', ''# comment'', ''no-count-here'', ''a;b 2'', ''a;b;c notanumber'',
         [CHR ''a'', CHR '' '', CHR 0x1C, CHR ''5'']] '';'' =
       (build_trie (\<lambda>_. None) [''a;b 2''] '';'' :: error + int TrieNode)"
proof -
  let ?pf = "\<lambda>_. None :: int option"
  let ?r = "TrieNode ''total'' [] 0 (0::int)"
  let ?bad = "[CHR ''a'', CHR '' '', CHR 0x1C, CHR ''5'']"
  let ?ls = "['''', ''   '', ''# comment'', ''no-count-here'', ''a;b 2'', ''a;b;c notanumber'', ?bad]"
  note inst = skipped_lines [of ?pf "''a;b;c notanumber''" ?r "'';''" ?ls]
  note inst2 = skipped_lines [of ?pf "''a;b 2''" ?r "'';''" ?ls]
  note inst3 = skipped_lines [of ?pf ?bad ?r "'';''" ?ls]
  have tok: "py_int (rev (takeWhile (\<lambda>c. c \<noteq> CHR '' '') (rev (str_strip ''a;b;c notanumber'')))) = None"
    by (simp add: str_strip_def is_space_def py_int_def int_strip_def is_int_space_def
        int_unsigned_def is_digit_def)
  with inst have skip: "parse_line ?pf ''a;b;c notanumber'' = None" by simp
  with inst have same: "insert_line ?pf (?r, '';'') ''a;b;c notanumber'' = Inr (?r, '';'')"
    by simp
  have tok3: "py_int (rev (takeWhile (\<lambda>c. c \<noteq> CHR '' '') (rev (str_strip ?bad)))) = None"
    by (simp add: str_strip_def is_space_def py_int_def int_strip_def is_int_space_def
        int_unsigned_def is_digit_def)
  with inst3 have skip3: "parse_line ?pf ?bad = None" by simp
  have empty: "parse_line ?pf '''' = None"
    by (simp add: parse_line_def str_strip_def)
  from inst2 have ins: "insert_line ?pf (?r, '';'') ''a;b 2'' =
       Inr (TrieNode ''total'' [(''a'', TrieNode ''a'' [(''b'', TrieNode ''b'' [] 2 0)] 0 0)] 0 0, '';'')"
    by (simp add: parse_ab2 effective_separator_def str_split_def new_TrieNode_def)
  from inst have "build_trie ?pf ?ls '';'' =
      build_trie ?pf (filter (\<lambda>l. parse_line ?pf l \<noteq> None) ?ls) '';''"
    by (elim conjE)
  then have flt: "build_trie ?pf ?ls '';'' = build_trie ?pf [''a;b 2''] '';''"
    by (simp add: parse_comment parse_blank parse_nocount parse_ab2 skip skip3 empty)
  show ?thesis
    using tok skip same tok3 skip3 ins flt by (simp add: parse_ab2)
qed

text \<open>
  C6. The conversion of the empty sequence of lines is the single row of the root
  \<open>total\<close>, at level 0 with value 0 and self 0, whatever the separator is: the root
  exists with zero counts and no children.
\<close>

theorem empty_input_single_row:
  "convert_folded_to_grafana py_float [] separator =
     Inr [\<lparr>level = 0, label = ''total'', val = 0, self = 0\<rparr>]
   \<and> build_trie py_float [] separator = Inr (TrieNode ''total'' [] 0 0)"
  by (simp add: convert_folded_to_grafana_def build_trie_def new_TrieNode_def
      nested_set_node sorted_reverse_def)

text \<open>
  C7. On the lines \<open>a;b;c 5\<close>, \<open>a;b;d 3\<close>, \<open>a;e 2\<close> with separator \<open>;\<close> the
  rows are, in this order, \<open>total\<close> (level 0, value 10), \<open>a\<close> (1, 10), \<open>b\<close> (2, 8),
  \<open>c\<close> (3, 5), \<open>d\<close> (3, 3), \<open>e\<close> (2, 2), with self counts 0, 0, 0, 5, 3, 2.
\<close>

theorem scenario_abc_rows:
  "convert_folded_to_grafana py_float [''a;b;c 5'', ''a;b;d 3'', ''a;e 2''] '';'' =
     Inr [\<lparr>level = 0, label = ''total'', val = 10, self = 0\<rparr>,
          \<lparr>level = 1, label = ''a'', val = 10, self = 0\<rparr>,
          \<lparr>level = 2, label = ''b'', val = 8, self = 0\<rparr>,
          \<lparr>level = 3, label = ''c'', val = 5, self = 5\<rparr>,
          \<lparr>level = 3, label = ''d'', val = 3, self = 3\<rparr>,
          \<lparr>level = 2, label = ''e'', val = 2, self = 2\<rparr>]"
proof -
  have "build_trie py_float [''a;b;c 5'', ''a;b;d 3'', ''a;e 2''] '';'' =
      Inr (TrieNode ''total''
        [(''a'', TrieNode ''a''
           [(''b'', TrieNode ''b''
              [(''c'', TrieNode ''c'' [] 5 0), (''d'', TrieNode ''d'' [] 3 0)] 0 0),
            (''e'', TrieNode ''e'' [] 2 0)] 0 0)] 0 0)"
    by (simp add: build_trie_def insert_line_def parse_abc5 parse_abd3 parse_ae2
        str_split_def new_TrieNode_def effective_separator_def)
  then show ?thesis
    by (simp add: convert_folded_to_grafana_def nested_set_node sorted_reverse_def)
qed

text \<open>
  C8. The first row of the output is the row of the root, at level 0. The output is
  the list of the nodes in traversal order, each at the level that is the number of
  its ancestors. Every entry of the traversal but the first has a parent (its last
  ancestor, of which it is a child) whose entry comes earlier; so every row at a
  level above 0 comes after a row one level lower. From one row to the next the level
  rises by at most one.
\<close>

theorem level_consistency:
  fixes root :: "'n::linorder TrieNode"
  shows "(\<exists>rest. trie_to_nested_set root 0 [] = row_of root 0 # rest \<and> level (row_of root 0) = 0)
    \<and> trie_to_nested_set root 0 [] = map (\<lambda>(a, n). row_of n (length a)) (walk root [])
    \<and> (\<forall>pre a n post. walk root [] = pre @ (a, n) # post \<longrightarrow>
          (pre = [] \<and> a = [] \<and> n = root) \<or>
          (a \<noteq> [] \<and> (butlast a, last a) \<in> set pre \<and> n \<in> snd ` set (children (last a))))
    \<and> (\<forall>pre r post. trie_to_nested_set root 0 [] = pre @ r # post \<and> 0 < level r \<longrightarrow>
          (\<exists>q \<in> set pre. Suc (level q) = level r))
    \<and> (\<forall>i. Suc i < length (trie_to_nested_set root 0 []) \<longrightarrow>
          level (trie_to_nested_set root 0 [] ! Suc i) \<le> Suc (level (trie_to_nested_set root 0 [] ! i)))"
proof (intro conjI allI impI)
  show "\<exists>rest. trie_to_nested_set root 0 [] = row_of root 0 # rest \<and> level (row_of root 0) = 0"
    using nested_set_head [of root 0] by (auto simp: row_of_def)
next
  show rows: "trie_to_nested_set root 0 [] = map (\<lambda>(a, n). row_of n (length a)) (walk root [])"
    using walk_rows [of root "[]"] by simp
next
  fix pre :: "('n TrieNode list \<times> 'n TrieNode) list" and a n post
  assume "walk root [] = pre @ (a, n) # post"
  then show "(pre = [] \<and> a = [] \<and> n = root) \<or>
          (a \<noteq> [] \<and> (butlast a, last a) \<in> set pre \<and> n \<in> snd ` set (children (last a)))"
    by (rule walk_parent)
next
  fix pre :: "'n row list" and r post
  let ?F = "\<lambda>(a, n :: 'n TrieNode). row_of n (length a)"
  assume "trie_to_nested_set root 0 [] = pre @ r # post \<and> 0 < level r"
  then have eq: "map ?F (walk root []) = pre @ r # post" and pos: "0 < level r"
    using walk_rows [of root "[]"] by simp_all
  from eq obtain wpre e wpost where
    w: "walk root [] = wpre @ e # wpost" and pre: "pre = map ?F wpre" and r: "r = ?F e"
    by (auto simp: map_eq_append_conv map_eq_Cons_conv)
  obtain a n where e: "e = (a, n)" by (cases e)
  from r pos have "a \<noteq> []" by (simp add: e row_of_def)
  with walk_parent [OF w [unfolded e]] have par: "(butlast a, last a) \<in> set wpre" by simp
  then have "?F (butlast a, last a) \<in> ?F ` set wpre" by (rule imageI)
  then have "?F (butlast a, last a) \<in> set pre" by (simp only: pre set_map)
  moreover have "Suc (level (?F (butlast a, last a))) = level r"
    using \<open>a \<noteq> []\<close> by (simp add: r e row_of_def)
  ultimately show "\<exists>q \<in> set pre. Suc (level q) = level r" by blast
next
  fix i
  assume "Suc i < length (trie_to_nested_set root 0 [])"
  with nested_set_successively [of root 0]
  show "level (trie_to_nested_set root 0 [] ! Suc i) \<le> Suc (level (trie_to_nested_set root 0 [] ! i))"
    by (simp add: successively_conv_nth)
qed

theorem level_consistency_witness:
  "walk (TrieNode ''total'' [(''a'', TrieNode ''a'' [] 2 2)] 0 (2::int)) [] =
     [([], TrieNode ''total'' [(''a'', TrieNode ''a'' [] 2 2)] 0 2)]
     @ ([TrieNode ''total'' [(''a'', TrieNode ''a'' [] 2 2)] 0 2], TrieNode ''a'' [] 2 2) # []
   \<and> ([], TrieNode ''total'' [(''a'', TrieNode ''a'' [] 2 2)] 0 (2::int))
       \<in> set [([], TrieNode ''total'' [(''a'', TrieNode ''a'' [] 2 2)] 0 2)]
   \<and> TrieNode ''a'' [] 2 (2::int)
       \<in> snd ` set (children (TrieNode ''total'' [(''a'', TrieNode ''a'' [] 2 2)] 0 2))
   \<and> trie_to_nested_set (TrieNode ''total'' [(''a'', TrieNode ''a'' [] 2 2)] 0 (2::int)) 0 [] =
       [\<lparr>level = 0, label = ''total'', val = 2, self = 0\<rparr>]
       @ \<lparr>level = 1, label = ''a'', val = 2, self = 2\<rparr> # []
   \<and> (0::nat) < level \<lparr>level = 1, label = ''a'', val = 2::int, self = 2\<rparr>
   \<and> (\<exists>q \<in> set [\<lparr>level = 0, label = ''total'', val = 2::int, self = 0\<rparr>].
         Suc (level q) = level \<lparr>level = 1, label = ''a'', val = 2::int, self = 2\<rparr>)
   \<and> Suc 0 < length (trie_to_nested_set (TrieNode ''total'' [(''a'', TrieNode ''a'' [] 2 2)] 0 (2::int)) 0 [])
   \<and> level (trie_to_nested_set (TrieNode ''total'' [(''a'', TrieNode ''a'' [] 2 2)] 0 (2::int)) 0 [] ! Suc 0)
       \<le> Suc (level (trie_to_nested_set (TrieNode ''total'' [(''a'', TrieNode ''a'' [] 2 2)] 0 (2::int)) 0 [] ! 0))"
proof -
  let ?A = "TrieNode ''a'' [] 2 (2::int)"
  let ?R = "TrieNode ''total'' [(''a'', ?A)] 0 (2::int)"
  have w: "walk ?R [] = [([], ?R)] @ ([?R], ?A) # []"
    by (simp add: walk_node sorted_reverse_def)
  have out: "trie_to_nested_set ?R 0 [] =
      [\<lparr>level = 0, label = ''total'', val = 2, self = 0\<rparr>]
       @ \<lparr>level = 1, label = ''a'', val = 2, self = 2\<rparr> # []"
    by (simp add: nested_set_node sorted_reverse_def)
  have len: "Suc 0 < length (trie_to_nested_set ?R 0 [])"
    by (simp add: out)
  note inst = level_consistency [of ?R]
  from inst w have par: "([?R] \<noteq> [] \<and> (butlast [?R], last [?R]) \<in> set [([], ?R)] \<and>
      ?A \<in> snd ` set (children (last [?R])))"
    by blast
  have pre: "trie_to_nested_set ?R 0 [] =
      [\<lparr>level = 0, label = ''total'', val = 2, self = 0\<rparr>]
       @ \<lparr>level = 1, label = ''a'', val = 2, self = 2\<rparr> # []
      \<and> 0 < level \<lparr>level = 1, label = ''a'', val = 2::int, self = 2\<rparr>"
    using out by simp
  note q = inst [THEN conjunct2, THEN conjunct2, THEN conjunct2, THEN conjunct1, rule_format, OF pre]
  note st = inst [THEN conjunct2, THEN conjunct2, THEN conjunct2, THEN conjunct2, rule_format, OF len]
  show ?thesis
    using w par out q st len by simp
qed





end
